theory Spec2Isabelle
  imports Complex_Main "HOL-Library.Word"
begin

section \<open>Data model of NanoExecutionEngine.cpp\<close>

subsection \<open>Values of type double, as far as a comparison can tell them apart\<close>

text \<open>
  The only operation the program applies to a \<^verbatim>\<open>double\<close> is the comparison
  \<^verbatim>\<open>order.quantity <= maxPosition\<close>. A comparison of two doubles sees the value
  a double denotes and nothing else: a finite double denotes a real number (both signed
  zeros denote 0), and besides these there are the two infinities and the NaNs, which
  compare alike whatever their payload. The finite values are modelled by \<^typ>\<open>real\<close>,
  a superset of the representable ones, on which the order is the same.
\<close>

datatype double = Finite real | PosInf | NegInf | NaN

text \<open>
  The operator \<^verbatim>\<open><=\<close> on doubles: false as soon as one operand is a NaN,
  otherwise the order of the extended real line.
\<close>

fun double_le :: "double \<Rightarrow> double \<Rightarrow> bool" where
  "double_le NaN y = False"
| "double_le x NaN = False"
| "double_le NegInf y = True"
| "double_le x PosInf = True"
| "double_le (Finite a) (Finite b) = (a \<le> b)"
| "double_le x y = False"

subsection \<open>struct Order\<close>

text \<open>
  \<^verbatim>\<open>struct Order { long orderId; long instrumentId; double price; double quantity; int side; }\<close>
  with \<^verbatim>\<open>long\<close> of 64 bits and \<^verbatim>\<open>int\<close> of 32. The comment on
  \<^verbatim>\<open>side\<close> reads \<^verbatim>\<open>1=Buy, 2=Sell\<close>; the field itself is a plain int.
\<close>

record Order =
  orderId :: "64 word"
  instrumentId :: "64 word"
  price :: double
  quantity :: double
  side :: "32 word"

definition Buy :: "32 word" where
  "Buy = 1"

definition Sell :: "32 word" where
  "Sell = 2"

definition recognisedSide :: "32 word \<Rightarrow> bool" where
  "recognisedSide s = (s = Buy \<or> s = Sell)"

subsection \<open>class PreTradeRiskGate\<close>

text \<open>
  The class declares no data member: an object of it has exactly one state. The member
  function \<^verbatim>\<open>isSafe\<close> is not const, so it is modelled with the object passed in
  and handed back, next to the boolean it returns.
  \<^verbatim>\<open>
  bool isSafe(const Order& order, double maxPosition) {
      bool safe = (order.quantity <= maxPosition);
      return safe;
  }
  \<close>
\<close>

datatype PreTradeRiskGate = PreTradeRiskGate

definition isSafe :: "PreTradeRiskGate \<Rightarrow> Order \<Rightarrow> double \<Rightarrow> bool \<times> PreTradeRiskGate" where
  "isSafe gate order maxPosition =
     (let safe = double_le (quantity order) maxPosition
      in (safe, gate))"

text \<open>
  A sequence of calls of \<^verbatim>\<open>isSafe\<close> on one gate object with one limit, in order:
  the results of the calls, and the gate after the last of them.
\<close>

fun isSafe_calls :: "PreTradeRiskGate \<Rightarrow> double \<Rightarrow> Order list \<Rightarrow> bool list \<times> PreTradeRiskGate" where
  "isSafe_calls gate maxPosition [] = ([], gate)"
| "isSafe_calls gate maxPosition (order # orders) =
     (let (safe, gate') = isSafe gate order maxPosition;
          (rest, gate'') = isSafe_calls gate' maxPosition orders
      in (safe # rest, gate''))"

subsection \<open>What the program does besides computing\<close>

text \<open>
  The effects of the statements of the program: the load and the store of the atomic flag
  \<^verbatim>\<open>_running\<close>, \<^verbatim>\<open>std::this_thread::yield()\<close> and the output to
  \<^verbatim>\<open>std::cout\<close>. The last three constructors are the steps that the comments in
  the body of \<^verbatim>\<open>runLoop\<close> name (\<^verbatim>\<open>pollOrder()\<close>, the call of
  \<^verbatim>\<open>_riskGate.isSafe\<close>, \<^verbatim>\<open>sendToWire(order)\<close>); no statement of the
  program produces them.
\<close>

datatype effect =
    LoadRunning bool
  | StoreRunning bool
  | Yield
  | Print string
  | PollOrder
  | IsSafeCall Order double
  | SendToWire Order

subsection \<open>class NanoExecutionEngine\<close>

text \<open>
  \<^verbatim>\<open>std::atomic<bool> _running; PreTradeRiskGate _riskGate;\<close>
  The constructor initialises \<^verbatim>\<open>_running\<close> with true.
\<close>

record NanoExecutionEngine =
  running :: bool
  riskGate :: PreTradeRiskGate

definition NanoExecutionEngine_ctor :: NanoExecutionEngine where
  "NanoExecutionEngine_ctor = \<lparr>running = True, riskGate = PreTradeRiskGate\<rparr>"

text \<open>\<^verbatim>\<open>void stop() { _running.store(false); }\<close>\<close>

definition stop :: "NanoExecutionEngine \<Rightarrow> effect list \<times> NanoExecutionEngine" where
  "stop e = ([StoreRunning False], e\<lparr>running := False\<rparr>)"

text \<open>
  \<^verbatim>\<open>
  void runLoop() {
      while (_running.load(std::memory_order_relaxed)) {
          std::this_thread::yield();
      }
  }
  \<close>
  \<^verbatim>\<open>stop\<close> is meant to be called by another thread while this loop runs, so the
  loop is modelled by its steps. The thread in \<^verbatim>\<open>runLoop\<close> is at the test of the
  loop, in its body, or has returned. At the test it loads the flag and enters the body or
  returns; in the body it yields and comes back to the test. In these steps the load
  reads the flag as the engine object has it, that is, a store is visible to the loop at
  once; the delay that the relaxed load allows is added in the next subsection.
\<close>

datatype loop_point = AtTest | InBody | Returned

record config =
  point :: loop_point
  engine :: NanoExecutionEngine

definition runLoop_call :: "NanoExecutionEngine \<Rightarrow> config" where
  "runLoop_call e = \<lparr>point = AtTest, engine = e\<rparr>"

definition runLoop_step :: "config \<Rightarrow> effect list \<times> config" where
  "runLoop_step c =
     (case point c of
        AtTest \<Rightarrow>
          (let r = running (engine c)
           in ([LoadRunning r], c\<lparr>point := (if r then InBody else Returned)\<rparr>))
      | InBody \<Rightarrow> ([Yield], c\<lparr>point := AtTest\<rparr>)
      | Returned \<Rightarrow> ([], c))"

text \<open>
  An interleaving is a list of events: a step of the thread in \<^verbatim>\<open>runLoop\<close>, or a
  call of \<^verbatim>\<open>stop\<close> from outside. Running it gives the effects in order and the
  configuration reached.
\<close>

datatype event = LoopStep | StopCall

fun step :: "event \<Rightarrow> config \<Rightarrow> effect list \<times> config" where
  "step LoopStep c = runLoop_step c"
| "step StopCall c = (case stop (engine c) of (out, e) \<Rightarrow> (out, c\<lparr>engine := e\<rparr>))"

fun run :: "event list \<Rightarrow> config \<Rightarrow> effect list \<times> config" where
  "run [] c = ([], c)"
| "run (ev # evs) c =
     (case step ev c of (out, c') \<Rightarrow>
        (case run evs c' of (outs, c'') \<Rightarrow> (out @ outs, c'')))"

subsection \<open>The relaxed load\<close>

text \<open>
  The load in \<^verbatim>\<open>runLoop\<close> is \<^verbatim>\<open>memory_order_relaxed\<close>, and nothing in the
  program orders it after the store in \<^verbatim>\<open>stop\<close>, which another thread makes. The
  loop thread reads the value of a store from the moment that store is visible to it, and
  this may be later than the store. The configuration gets one more component, the value
  of \<^verbatim>\<open>_running\<close> that the loop thread reads; \<^verbatim>\<open>stop\<close> changes the flag of
  the engine, and an event of its own makes the latest store visible to the loop thread.
  What the thread reads is only ever replaced by the latest store, so it never goes back
  to an older one. Calling \<^verbatim>\<open>runLoop\<close> on an engine, the thread reads the flag as
  the engine has it then.
\<close>

record relaxed_config = config +
  seen :: bool

definition runLoop_call_relaxed :: "NanoExecutionEngine \<Rightarrow> relaxed_config" where
  "runLoop_call_relaxed e = \<lparr>point = AtTest, engine = e, seen = running e\<rparr>"

definition runLoop_step_relaxed :: "relaxed_config \<Rightarrow> effect list \<times> relaxed_config" where
  "runLoop_step_relaxed c =
     (case point c of
        AtTest \<Rightarrow>
          (let r = seen c
           in ([LoadRunning r], c\<lparr>point := (if r then InBody else Returned)\<rparr>))
      | InBody \<Rightarrow> ([Yield], c\<lparr>point := AtTest\<rparr>)
      | Returned \<Rightarrow> ([], c))"

datatype relaxed_event = TakeStep | CallStop | BecomeVisible

fun step_relaxed :: "relaxed_event \<Rightarrow> relaxed_config \<Rightarrow> effect list \<times> relaxed_config" where
  "step_relaxed TakeStep c = runLoop_step_relaxed c"
| "step_relaxed CallStop c = (case stop (engine c) of (out, e) \<Rightarrow> (out, c\<lparr>engine := e\<rparr>))"
| "step_relaxed BecomeVisible c = ([], c\<lparr>seen := running (engine c)\<rparr>)"

fun run_relaxed :: "relaxed_event list \<Rightarrow> relaxed_config \<Rightarrow> effect list \<times> relaxed_config" where
  "run_relaxed [] c = ([], c)"
| "run_relaxed (ev # evs) c =
     (case step_relaxed ev c of (out, c') \<Rightarrow>
        (case run_relaxed evs c' of (outs, c'') \<Rightarrow> (out @ outs, c'')))"

text \<open>
  The interleavings of the previous subsection are those in which every store is visible
  as soon as it is made.
\<close>

fun visible_at_once :: "event \<Rightarrow> relaxed_event list" where
  "visible_at_once LoopStep = [TakeStep]"
| "visible_at_once StopCall = [CallStop, BecomeVisible]"

definition with_view :: "config \<Rightarrow> relaxed_config" where
  "with_view c = \<lparr>point = point c, engine = engine c, seen = running (engine c)\<rparr>"

subsection \<open>main\<close>

text \<open>
  \<^verbatim>\<open>
  int main() {
      std::cout << "[METAL] Starting NanoExecutionEngine..." << std::endl;
      NanoExecutionEngine engine;
      // engine.runLoop();
      return 0;
  }
  \<close>
  The result is what the program did, the engine it constructed, and its return value.
\<close>

definition main :: "effect list \<times> NanoExecutionEngine \<times> 32 word" where
  "main =
     (let out = [Print (''[METAL] Starting NanoExecutionEngine...'' @ [CHR 0x0A])];
          engine = NanoExecutionEngine_ctor
      in (out, engine, 0))"

section \<open>The comparison of doubles\<close>

lemma double_le_iff:
  "double_le x y \<longleftrightarrow>
     x \<noteq> NaN \<and> y \<noteq> NaN \<and>
     (x = NegInf \<or> y = PosInf \<or> (\<exists>a b. x = Finite a \<and> y = Finite b \<and> a \<le> b))"
  by (cases x; cases y) simp_all

lemma double_le_NaN_right [simp]: "double_le x NaN = False"
  by (cases x) simp_all

lemma double_le_refl: "x \<noteq> NaN \<Longrightarrow> double_le x x"
  by (cases x) simp_all

lemma double_le_trans: "double_le x y \<Longrightarrow> double_le y z \<Longrightarrow> double_le x z"
  by (cases x; cases y; cases z) simp_all

lemma double_le_total: "x \<noteq> NaN \<Longrightarrow> y \<noteq> NaN \<Longrightarrow> double_le x y \<or> double_le y x"
  by (cases x; cases y) auto

section \<open>The pre-trade risk gate\<close>

lemma isSafe_result: "fst (isSafe gate order m) = double_le (quantity order) m"
  by (simp add: isSafe_def)

lemma isSafe_gate: "snd (isSafe gate order m) = gate"
  by (simp add: isSafe_def)

text \<open>
  C8. For every order and every limit, \<^verbatim>\<open>isSafe\<close> returns true exactly when the
  order's quantity is \<^verbatim>\<open><=\<close> the limit; replacing orderId, instrumentId, price and
  side by any other values changes nothing of the call's outcome; and an order of negative
  quantity not above the limit is judged safe.
\<close>

theorem isSafe_reads_quantity_only:
  "fst (isSafe gate order m) = double_le (quantity order) m
   \<and> isSafe gate (order\<lparr>orderId := i, instrumentId := j, price := p, side := s\<rparr>) m
       = isSafe gate order m
   \<and> (q < 0 \<and> q \<le> l \<longrightarrow> fst (isSafe gate (order\<lparr>quantity := Finite q\<rparr>) (Finite l)))"
  by (simp add: isSafe_def)

theorem isSafe_reads_quantity_only_witness:
  "fst (isSafe PreTradeRiskGate
          \<lparr>orderId = 7, instrumentId = 3, price = Finite 101.5, quantity = Finite 50, side = 1\<rparr>
          (Finite 1000)) = True
   \<and> isSafe PreTradeRiskGate
          \<lparr>orderId = 8, instrumentId = 4, price = NaN, quantity = Finite 50, side = 3\<rparr>
          (Finite 1000)
       = isSafe PreTradeRiskGate
          \<lparr>orderId = 7, instrumentId = 3, price = Finite 101.5, quantity = Finite 50, side = 1\<rparr>
          (Finite 1000)
   \<and> fst (isSafe PreTradeRiskGate
          \<lparr>orderId = 7, instrumentId = 3, price = Finite 101.5, quantity = Finite (- 5), side = 1\<rparr>
          (Finite 1000))"
  using isSafe_reads_quantity_only
    [where gate = PreTradeRiskGate
       and order = "\<lparr>orderId = 7, instrumentId = 3, price = Finite 101.5, quantity = Finite 50, side = 1\<rparr>"
       and m = "Finite 1000" and i = 8 and j = 4 and p = NaN and s = 3 and q = "- 5" and l = 1000]
  by simp

lemma isSafe_calls_result:
  "isSafe_calls gate m orders = (map (\<lambda>order. double_le (quantity order) m) orders, gate)"
proof (induction orders arbitrary: gate)
  case Nil
  show ?case by simp
next
  case (Cons order orders)
  have "isSafe gate order m = (double_le (quantity order) m, gate)"
    by (simp add: isSafe_def)
  with Cons.IH [of gate] show ?case by simp
qed

text \<open>
  C1, as the code has it. \<^verbatim>\<open>isSafe\<close> returns true for every order whose quantity
  is \<^verbatim>\<open><=\<close> the limit it is called with, whatever the order's side and price; and
  it returns true only when that comparison holds. It makes no check of the side, of the
  price or of an aggregate position.
\<close>

theorem isSafe_true_iff_quantity_within_limit:
  "(double_le (quantity order) m \<longrightarrow> fst (isSafe gate (order\<lparr>price := p, side := s\<rparr>) m) = True)
   \<and> (fst (isSafe gate order m) = True \<longrightarrow> double_le (quantity order) m)"
  by (simp add: isSafe_def)

theorem isSafe_true_iff_quantity_within_limit_witness:
  "double_le (Finite 50) (Finite 1000)
   \<and> fst (isSafe PreTradeRiskGate
        \<lparr>orderId = 1, instrumentId = 9, price = Finite (- 3), quantity = Finite 50, side = 0\<rparr>
        (Finite 1000)) = True
   \<and> fst (isSafe PreTradeRiskGate
        \<lparr>orderId = 1, instrumentId = 9, price = Finite 20, quantity = Finite 50, side = 2\<rparr>
        (Finite 1000)) = True"
  using isSafe_true_iff_quantity_within_limit
    [where gate = PreTradeRiskGate
       and order = "\<lparr>orderId = 1, instrumentId = 9, price = Finite 20, quantity = Finite 50, side = 2\<rparr>"
       and m = "Finite 1000" and p = "Finite (- 3)" and s = 0]
  by (simp add: isSafe_def)

text \<open>
  C1 as stated fails: an order whose side is 0, neither Buy nor Sell, is returned true,
  so true is not returned only when all four checks pass.
\<close>

theorem isSafe_true_with_unrecognised_side:
  "fst (isSafe PreTradeRiskGate
        \<lparr>orderId = 1, instrumentId = 1, price = Finite 100, quantity = Finite 1, side = 0\<rparr>
        (Finite 1000)) = True
   \<and> \<not> recognisedSide
        (side \<lparr>orderId = 1, instrumentId = 1, price = Finite 100, quantity = Finite 1, side = 0\<rparr>)"
  by (simp add: isSafe_def recognisedSide_def Buy_def Sell_def)

text \<open>
  C2, as the code has it. The gate keeps no position: after any sequence of calls,
  admitted or not, the gate object is the one the sequence started with, and the result of
  each call is the comparison of that order's own quantity with the limit, so no earlier
  order, admitted or rejected, contributes to a later result.
\<close>

theorem isSafe_calls_keep_no_position:
  "snd (isSafe_calls gate m orders) = gate
   \<and> fst (isSafe_calls gate m orders) = map (\<lambda>order. double_le (quantity order) m) orders
   \<and> fst (isSafe_calls gate m (earlier @ orders))
       = fst (isSafe_calls gate m earlier) @ fst (isSafe_calls gate m orders)"
  by (simp add: isSafe_calls_result)

theorem isSafe_calls_keep_no_position_witness:
  "snd (isSafe_calls PreTradeRiskGate (Finite 100)
        [\<lparr>orderId = 1, instrumentId = 5, price = Finite 10, quantity = Finite 50, side = 1\<rparr>,
         \<lparr>orderId = 2, instrumentId = 5, price = Finite 10, quantity = Finite 60, side = 1\<rparr>])
     = PreTradeRiskGate
   \<and> fst (isSafe_calls PreTradeRiskGate (Finite 100)
        [\<lparr>orderId = 1, instrumentId = 5, price = Finite 10, quantity = Finite 50, side = 1\<rparr>,
         \<lparr>orderId = 2, instrumentId = 5, price = Finite 10, quantity = Finite 60, side = 1\<rparr>])
     = [True, True]
   \<and> fst (isSafe_calls PreTradeRiskGate (Finite 100)
        ([\<lparr>orderId = 0, instrumentId = 5, price = Finite 10, quantity = Finite 200, side = 1\<rparr>] @
         [\<lparr>orderId = 1, instrumentId = 5, price = Finite 10, quantity = Finite 50, side = 1\<rparr>,
          \<lparr>orderId = 2, instrumentId = 5, price = Finite 10, quantity = Finite 60, side = 1\<rparr>]))
     = [False, True, True]"
  using isSafe_calls_keep_no_position
    [where gate = PreTradeRiskGate and m = "Finite 100"
       and earlier = "[\<lparr>orderId = 0, instrumentId = 5, price = Finite 10, quantity = Finite 200, side = 1\<rparr>]"
       and orders = "[\<lparr>orderId = 1, instrumentId = 5, price = Finite 10, quantity = Finite 50, side = 1\<rparr>,
                     \<lparr>orderId = 2, instrumentId = 5, price = Finite 10, quantity = Finite 60, side = 1\<rparr>]"]
  by (simp add: isSafe_def)

text \<open>
  C2 as stated fails. Two Buy orders of quantities 50 and 60 are both admitted under the
  limit 1000, and the gate after them is the gate before them: whatever is read off the
  gate's state as its tracked position, it cannot be 0 before and 110 after.
\<close>

theorem isSafe_calls_admitted_quantities_not_tracked:
  "isSafe_calls PreTradeRiskGate (Finite 1000)
      [\<lparr>orderId = 1, instrumentId = 5, price = Finite 10, quantity = Finite 50, side = 1\<rparr>,
       \<lparr>orderId = 2, instrumentId = 5, price = Finite 10, quantity = Finite 60, side = 1\<rparr>]
     = ([True, True], PreTradeRiskGate)
   \<and> \<not> (\<exists>position :: PreTradeRiskGate \<Rightarrow> real.
          position PreTradeRiskGate = 0
          \<and> position (snd (isSafe_calls PreTradeRiskGate (Finite 1000)
               [\<lparr>orderId = 1, instrumentId = 5, price = Finite 10, quantity = Finite 50, side = 1\<rparr>,
                \<lparr>orderId = 2, instrumentId = 5, price = Finite 10, quantity = Finite 60, side = 1\<rparr>]))
              = 110)"
  by (simp add: isSafe_def)

text \<open>
  C3, as the code has it. \<^verbatim>\<open>isSafe\<close> returns false exactly when the order's
  quantity is not \<^verbatim>\<open><=\<close> the limit (between finite values: when the quantity is
  above the limit), and the false carries no reason. Calling it again on the same order
  and limit returns the same result.
\<close>

theorem isSafe_false_iff_quantity_not_within_limit:
  "(fst (isSafe gate order m) = False) = (\<not> double_le (quantity order) m)
   \<and> (fst (isSafe gate (order\<lparr>quantity := Finite q\<rparr>) (Finite l)) = False) = (l < q)
   \<and> fst (isSafe (snd (isSafe gate order m)) order m) = fst (isSafe gate order m)"
  by (auto simp add: isSafe_def)

theorem isSafe_false_iff_quantity_not_within_limit_witness:
  "fst (isSafe PreTradeRiskGate
        \<lparr>orderId = 4, instrumentId = 2, price = Finite 10, quantity = Finite 1500, side = 1\<rparr>
        (Finite 1000)) = False
   \<and> fst (isSafe
        (snd (isSafe PreTradeRiskGate
          \<lparr>orderId = 4, instrumentId = 2, price = Finite 10, quantity = Finite 1500, side = 1\<rparr>
          (Finite 1000)))
        \<lparr>orderId = 4, instrumentId = 2, price = Finite 10, quantity = Finite 1500, side = 1\<rparr>
        (Finite 1000)) = False"
  using isSafe_false_iff_quantity_not_within_limit
    [where gate = PreTradeRiskGate
       and order = "\<lparr>orderId = 4, instrumentId = 2, price = Finite 10, quantity = Finite 1500, side = 1\<rparr>"
       and m = "Finite 1000" and q = 1500 and l = 1000]
  by (simp add: isSafe_def)

text \<open>
  C3 as stated fails: an order that violates the side predicate (side 7) and the price
  predicate (an infinite price) is returned true, not a rejection with a reason.
\<close>

theorem isSafe_true_with_side_and_price_violated:
  "isSafe PreTradeRiskGate
      \<lparr>orderId = 3, instrumentId = 1, price = PosInf, quantity = Finite 10, side = 7\<rparr>
      (Finite 1000)
     = (True, PreTradeRiskGate)
   \<and> \<not> recognisedSide 7"
  by (simp add: isSafe_def recognisedSide_def Buy_def Sell_def)

text \<open>
  C5. Two runs of the same sequence of orders with the same limit give the same sequence of
  results and the same gate at the end, whatever gate object each run starts from; also
  when one of the gates has evaluated other orders before.
\<close>

theorem isSafe_calls_deterministic:
  "isSafe_calls gate1 m orders = isSafe_calls gate2 m orders
   \<and> isSafe_calls (snd (isSafe_calls gate1 m earlier)) m orders = isSafe_calls gate2 m orders"
  by (cases gate1; cases gate2) (simp add: isSafe_calls_result)

theorem isSafe_calls_deterministic_witness:
  "isSafe_calls
      (snd (isSafe_calls PreTradeRiskGate (Finite 55)
        [\<lparr>orderId = 9, instrumentId = 5, price = Finite 10, quantity = Finite 40, side = 2\<rparr>]))
      (Finite 55)
      [\<lparr>orderId = 1, instrumentId = 5, price = Finite 10, quantity = Finite 50, side = 1\<rparr>,
       \<lparr>orderId = 2, instrumentId = 5, price = Finite 10, quantity = Finite 60, side = 1\<rparr>]
     = isSafe_calls PreTradeRiskGate (Finite 55)
      [\<lparr>orderId = 1, instrumentId = 5, price = Finite 10, quantity = Finite 50, side = 1\<rparr>,
       \<lparr>orderId = 2, instrumentId = 5, price = Finite 10, quantity = Finite 60, side = 1\<rparr>]
   \<and> isSafe_calls PreTradeRiskGate (Finite 55)
      [\<lparr>orderId = 1, instrumentId = 5, price = Finite 10, quantity = Finite 50, side = 1\<rparr>,
       \<lparr>orderId = 2, instrumentId = 5, price = Finite 10, quantity = Finite 60, side = 1\<rparr>]
     = ([True, False], PreTradeRiskGate)"
  using isSafe_calls_deterministic
    [where ?gate1.0 = PreTradeRiskGate and ?gate2.0 = PreTradeRiskGate and m = "Finite 55"
       and earlier = "[\<lparr>orderId = 9, instrumentId = 5, price = Finite 10, quantity = Finite 40, side = 2\<rparr>]"
       and orders = "[\<lparr>orderId = 1, instrumentId = 5, price = Finite 10, quantity = Finite 50, side = 1\<rparr>,
                     \<lparr>orderId = 2, instrumentId = 5, price = Finite 10, quantity = Finite 60, side = 1\<rparr>]"]
  by (simp add: isSafe_def)

text \<open>
  C6, as the code has it. \<^verbatim>\<open>isSafe\<close> does not read the side: an order whose side
  is neither Buy nor Sell gets the result of the comparison of its quantity with the limit,
  the same result as the same order with side Buy, and the gate is unchanged by the call.
\<close>

theorem isSafe_ignores_side:
  "(\<not> recognisedSide (side order) \<longrightarrow> isSafe gate order m = (double_le (quantity order) m, gate))
   \<and> fst (isSafe gate (order\<lparr>side := s\<rparr>) m) = fst (isSafe gate (order\<lparr>side := Buy\<rparr>) m)
   \<and> snd (isSafe gate (order\<lparr>side := s\<rparr>) m) = gate"
  by (simp add: isSafe_def)

theorem isSafe_ignores_side_witness:
  "\<not> recognisedSide 3
   \<and> isSafe PreTradeRiskGate
        \<lparr>orderId = 6, instrumentId = 2, price = Finite 10, quantity = Finite 2000, side = 3\<rparr>
        (Finite 1000)
      = (False, PreTradeRiskGate)
   \<and> fst (isSafe PreTradeRiskGate
        \<lparr>orderId = 6, instrumentId = 2, price = Finite 10, quantity = Finite 2000, side = 1\<rparr>
        (Finite 1000))
      = False"
  using isSafe_ignores_side
    [where gate = PreTradeRiskGate
       and order = "\<lparr>orderId = 6, instrumentId = 2, price = Finite 10, quantity = Finite 2000, side = 3\<rparr>"
       and m = "Finite 1000" and s = 3]
  by (simp add: isSafe_def recognisedSide_def Buy_def Sell_def)

text \<open>
  C6 as stated fails: the order with side 3 and quantity 10 is returned true under the
  limit 1000.
\<close>

theorem isSafe_true_with_side_3:
  "isSafe PreTradeRiskGate
      \<lparr>orderId = 1, instrumentId = 1, price = Finite 100, quantity = Finite 10, side = 3\<rparr>
      (Finite 1000)
     = (True, PreTradeRiskGate)
   \<and> \<not> recognisedSide 3"
  by (simp add: isSafe_def recognisedSide_def Buy_def Sell_def)

text \<open>
  C7, as the code has it. \<^verbatim>\<open>isSafe\<close> does not read the price: the result is the
  same for every price, and an order whose price is a NaN and whose quantity is
  \<^verbatim>\<open><=\<close> the limit is returned true.
\<close>

theorem isSafe_ignores_price:
  "isSafe gate (order\<lparr>price := p\<rparr>) m = isSafe gate order m
   \<and> (double_le (quantity order) m \<longrightarrow> fst (isSafe gate (order\<lparr>price := NaN\<rparr>) m) = True)"
  by (simp add: isSafe_def)

theorem isSafe_ignores_price_witness:
  "isSafe PreTradeRiskGate
      \<lparr>orderId = 2, instrumentId = 8, price = NegInf, quantity = Finite 75, side = 2\<rparr>
      (Finite 80)
     = isSafe PreTradeRiskGate
      \<lparr>orderId = 2, instrumentId = 8, price = Finite 31, quantity = Finite 75, side = 2\<rparr>
      (Finite 80)
   \<and> double_le (Finite 75) (Finite 80)
   \<and> fst (isSafe PreTradeRiskGate
        \<lparr>orderId = 2, instrumentId = 8, price = NaN, quantity = Finite 75, side = 2\<rparr>
        (Finite 80)) = True"
  using isSafe_ignores_price
    [where gate = PreTradeRiskGate
       and order = "\<lparr>orderId = 2, instrumentId = 8, price = Finite 31, quantity = Finite 75, side = 2\<rparr>"
       and m = "Finite 80" and p = NegInf]
  by (simp add: isSafe_def)

text \<open>
  C7 as stated fails: a Buy order of quantity 10 whose price is a NaN is returned true
  under the limit 1000.
\<close>

theorem isSafe_true_with_NaN_price:
  "isSafe PreTradeRiskGate
      \<lparr>orderId = 1, instrumentId = 1, price = NaN, quantity = Finite 10, side = 1\<rparr>
      (Finite 1000)
     = (True, PreTradeRiskGate)
   \<and> recognisedSide 1"
  by (simp add: isSafe_def recognisedSide_def Buy_def Sell_def)

section \<open>The execution engine\<close>

lemma run_Cons_fst: "fst (run (ev # evs) c) = fst (step ev c) @ fst (run evs (snd (step ev c)))"
  by (simp split: prod.splits)

lemma run_Cons_snd: "snd (run (ev # evs) c) = snd (run evs (snd (step ev c)))"
  by (simp split: prod.splits)

lemma step_StopCall_fst: "fst (step StopCall c) = [StoreRunning False]"
  by (simp add: stop_def)

lemma step_StopCall_snd: "snd (step StopCall c) = c\<lparr>engine := (engine c)\<lparr>running := False\<rparr>\<rparr>"
  by (simp add: stop_def)

lemma step_LoopStep_engine: "engine (snd (step LoopStep c)) = engine c"
  by (simp add: runLoop_step_def Let_def split: loop_point.splits)

lemma step_LoopStep_stopped:
  "\<not> running (engine c) \<Longrightarrow>
   step LoopStep c =
     (case point c of
        AtTest \<Rightarrow> ([LoadRunning False], c\<lparr>point := Returned\<rparr>)
      | InBody \<Rightarrow> ([Yield], c\<lparr>point := AtTest\<rparr>)
      | Returned \<Rightarrow> ([], c))"
  by (simp add: runLoop_step_def Let_def split: loop_point.splits)

lemma step_effects:
  "set (fst (step ev c)) \<subseteq> {LoadRunning True, LoadRunning False, Yield, StoreRunning False}"
  by (cases ev) (auto simp add: runLoop_step_def stop_def Let_def split: loop_point.splits)

lemma run_effects:
  "set (fst (run evs c)) \<subseteq> {LoadRunning True, LoadRunning False, Yield, StoreRunning False}"
proof (induction evs arbitrary: c)
  case Nil
  show ?case by simp
next
  case (Cons ev evs)
  show ?case
    unfolding run_Cons_fst using step_effects [of ev c] Cons.IH [of "snd (step ev c)"]
    by simp
qed

lemma step_riskGate: "riskGate (engine (snd (step ev c))) = riskGate (engine c)"
  by (cases ev) (simp_all add: runLoop_step_def stop_def Let_def split: loop_point.splits)

lemma run_riskGate: "riskGate (engine (snd (run evs c))) = riskGate (engine c)"
  by (induction evs arbitrary: c) (simp_all add: run_Cons_snd step_riskGate del: run.simps(2))

lemma step_stays_stopped: "\<not> running (engine c) \<Longrightarrow> \<not> running (engine (snd (step ev c)))"
  by (cases ev) (simp_all add: step_LoopStep_engine step_StopCall_snd del: step.simps)

lemma run_stays_stopped: "\<not> running (engine c) \<Longrightarrow> \<not> running (engine (snd (run evs c)))"
proof (induction evs arbitrary: c)
  case Nil
  then show ?case by simp
next
  case (Cons ev evs)
  from Cons.prems have "\<not> running (engine (snd (step ev c)))"
    by (rule step_stays_stopped)
  then have "\<not> running (engine (snd (run evs (snd (step ev c)))))"
    by (rule Cons.IH)
  then show ?case by (simp add: run_Cons_snd del: run.simps(2))
qed

text \<open>
  With every store visible at once, a false flag ends the loop: no iteration begins, at
  most the yield in progress happens, and the thread returns.
\<close>

lemma run_stopped_no_iteration:
  "\<not> running (engine c) \<Longrightarrow> LoadRunning True \<notin> set (fst (run evs c))"
proof (induction evs arbitrary: c)
  case Nil
  show ?case by simp
next
  case (Cons ev evs)
  have here: "LoadRunning True \<notin> set (fst (step ev c))"
    using Cons.prems
    by (cases ev) (simp_all add: step_LoopStep_stopped step_StopCall_fst del: step.simps split: loop_point.splits)
  have later: "LoadRunning True \<notin> set (fst (run evs (snd (step ev c))))"
    using Cons.prems by (intro Cons.IH step_stays_stopped)
  from here later show ?case by (simp add: run_Cons_fst del: run.simps(2))
qed

lemma run_stopped_yields:
  "\<not> running (engine c) \<Longrightarrow>
   length (filter (\<lambda>a. a = Yield) (fst (run evs c))) \<le> (if point c = InBody then 1 else 0)"
proof (induction evs arbitrary: c)
  case Nil
  show ?case by simp
next
  case (Cons ev evs)
  let ?c = "snd (step ev c)"
  have stopped: "\<not> running (engine ?c)"
    using Cons.prems by (rule step_stays_stopped)
  note IH = Cons.IH [OF stopped]
  show ?case
  proof (cases ev)
    case StopCall
    with IH show ?thesis
      by (simp add: run_Cons_fst step_StopCall_fst step_StopCall_snd del: run.simps(2) step.simps)
  next
    case LoopStep
    with IH Cons.prems show ?thesis
      by (cases "point c")
        (simp_all add: run_Cons_fst step_LoopStep_stopped del: run.simps(2) step.simps)
  qed
qed

lemma run_stopped_returns:
  "\<not> running (engine c) \<Longrightarrow>
   (case point c of AtTest \<Rightarrow> 1 | InBody \<Rightarrow> 2 | Returned \<Rightarrow> 0)
     \<le> length (filter (\<lambda>ev. ev = LoopStep) evs) \<Longrightarrow>
   point (snd (run evs c)) = Returned"
proof (induction evs arbitrary: c)
  case Nil
  then show ?case by (cases "point c") simp_all
next
  case (Cons ev evs)
  let ?c = "snd (step ev c)"
  have stopped: "\<not> running (engine ?c)"
    using Cons.prems(1) by (rule step_stays_stopped)
  note IH = Cons.IH [OF stopped]
  show ?case
  proof (cases ev)
    case StopCall
    with IH Cons.prems(2) show ?thesis
      by (simp add: run_Cons_snd step_StopCall_snd del: run.simps(2) step.simps)
  next
    case LoopStep
    with IH Cons.prems show ?thesis
      by (cases "point c")
        (simp_all add: run_Cons_snd step_LoopStep_stopped del: run.simps(2) step.simps)
  qed
qed

text \<open>
  Without a call of \<^verbatim>\<open>stop\<close> the thread stays in the loop: while the flag is true,
  no number of its steps takes it out of \<^verbatim>\<open>runLoop\<close>.
\<close>

lemma run_running_never_returns:
  "running (engine c) \<Longrightarrow> point c \<noteq> Returned \<Longrightarrow>
   point (snd (run (replicate n LoopStep) c)) \<noteq> Returned"
proof (induction n arbitrary: c)
  case 0
  then show ?case by simp
next
  case (Suc n)
  let ?c = "snd (step LoopStep c)"
  have "running (engine ?c)"
    using Suc.prems(1) by (simp add: step_LoopStep_engine del: step.simps)
  moreover have "point ?c \<noteq> Returned"
    using Suc.prems by (cases "point c") (simp_all add: runLoop_step_def Let_def)
  ultimately have "point (snd (run (replicate n LoopStep) ?c)) \<noteq> Returned"
    by (rule Suc.IH)
  then show ?case
    by (simp add: run_Cons_snd del: run.simps(2) step.simps)
qed

lemma run_no_store_true: "StoreRunning True \<notin> set (fst (run evs c))"
  using run_effects [of evs c] by auto

lemma run_no_order_effects:
  "a \<in> set (fst (run evs c)) \<Longrightarrow>
   a \<noteq> PollOrder \<and> (\<forall>order m. a \<noteq> IsSafeCall order m) \<and> (\<forall>order. a \<noteq> SendToWire order)"
  using run_effects [of evs c] by auto

subsection \<open>The loop under the relaxed load\<close>

lemma run_relaxed_Cons_fst:
  "fst (run_relaxed (ev # evs) c)
     = fst (step_relaxed ev c) @ fst (run_relaxed evs (snd (step_relaxed ev c)))"
  by (simp split: prod.splits)

lemma run_relaxed_Cons_snd:
  "snd (run_relaxed (ev # evs) c) = snd (run_relaxed evs (snd (step_relaxed ev c)))"
  by (simp split: prod.splits)

lemma run_relaxed_append:
  "run_relaxed (xs @ ys) c
     = (fst (run_relaxed xs c) @ fst (run_relaxed ys (snd (run_relaxed xs c))),
        snd (run_relaxed ys (snd (run_relaxed xs c))))"
  by (induction xs arbitrary: c) (simp_all split: prod.splits)

lemma step_relaxed_TakeStep_engine: "engine (snd (step_relaxed TakeStep c)) = engine c"
  by (simp add: runLoop_step_relaxed_def Let_def split: loop_point.splits)

lemma step_relaxed_TakeStep_seen: "seen (snd (step_relaxed TakeStep c)) = seen c"
  by (simp add: runLoop_step_relaxed_def Let_def split: loop_point.splits)

lemma step_relaxed_TakeStep_unseen:
  "\<not> seen c \<Longrightarrow>
   step_relaxed TakeStep c =
     (case point c of
        AtTest \<Rightarrow> ([LoadRunning False], c\<lparr>point := Returned\<rparr>)
      | InBody \<Rightarrow> ([Yield], c\<lparr>point := AtTest\<rparr>)
      | Returned \<Rightarrow> ([], c))"
  by (simp add: runLoop_step_relaxed_def Let_def split: loop_point.splits)

lemma step_relaxed_CallStop:
  "step_relaxed CallStop c = ([StoreRunning False], c\<lparr>engine := (engine c)\<lparr>running := False\<rparr>\<rparr>)"
  by (simp add: stop_def)

lemma step_relaxed_effects:
  "set (fst (step_relaxed ev c)) \<subseteq> {LoadRunning True, LoadRunning False, Yield, StoreRunning False}"
  by (cases ev) (auto simp add: runLoop_step_relaxed_def stop_def Let_def split: loop_point.splits)

lemma run_relaxed_effects:
  "set (fst (run_relaxed evs c)) \<subseteq> {LoadRunning True, LoadRunning False, Yield, StoreRunning False}"
proof (induction evs arbitrary: c)
  case Nil
  show ?case by simp
next
  case (Cons ev evs)
  show ?case
    unfolding run_relaxed_Cons_fst
    using step_relaxed_effects [of ev c] Cons.IH [of "snd (step_relaxed ev c)"]
    by simp
qed

text \<open>The flag of the engine: once false, false in every continuation.\<close>

lemma step_relaxed_stays_stopped:
  "\<not> running (engine c) \<Longrightarrow> \<not> running (engine (snd (step_relaxed ev c)))"
  by (cases ev) (simp_all add: step_relaxed_TakeStep_engine step_relaxed_CallStop del: step_relaxed.simps(1,2))

lemma run_relaxed_stays_stopped:
  "\<not> running (engine c) \<Longrightarrow> \<not> running (engine (snd (run_relaxed evs c)))"
proof (induction evs arbitrary: c)
  case Nil
  then show ?case by simp
next
  case (Cons ev evs)
  from Cons.prems have "\<not> running (engine (snd (step_relaxed ev c)))"
    by (rule step_relaxed_stays_stopped)
  then have "\<not> running (engine (snd (run_relaxed evs (snd (step_relaxed ev c)))))"
    by (rule Cons.IH)
  then show ?case by (simp add: run_relaxed_Cons_snd del: run_relaxed.simps(2))
qed

text \<open>
  What the loop thread reads: once the flag is false and the thread reads false, it reads
  false in every continuation.
\<close>

lemma step_relaxed_stays_unseen:
  "\<not> running (engine c) \<Longrightarrow> \<not> seen c \<Longrightarrow> \<not> seen (snd (step_relaxed ev c))"
  by (cases ev) (simp_all add: step_relaxed_TakeStep_seen step_relaxed_CallStop del: step_relaxed.simps(1,2))

lemma run_relaxed_unseen_no_iteration:
  "\<not> running (engine c) \<Longrightarrow> \<not> seen c \<Longrightarrow> LoadRunning True \<notin> set (fst (run_relaxed evs c))"
proof (induction evs arbitrary: c)
  case Nil
  show ?case by simp
next
  case (Cons ev evs)
  have here: "LoadRunning True \<notin> set (fst (step_relaxed ev c))"
    using Cons.prems
    by (cases ev)
      (simp_all add: step_relaxed_TakeStep_unseen step_relaxed_CallStop
        del: step_relaxed.simps(1,2) split: loop_point.splits)
  have later: "LoadRunning True \<notin> set (fst (run_relaxed evs (snd (step_relaxed ev c))))"
    using Cons.prems by (intro Cons.IH step_relaxed_stays_stopped step_relaxed_stays_unseen)
  from here later show ?case
    by (simp add: run_relaxed_Cons_fst del: run_relaxed.simps(2))
qed

lemma run_relaxed_unseen_yields:
  "\<not> running (engine c) \<Longrightarrow> \<not> seen c \<Longrightarrow>
   length (filter (\<lambda>a. a = Yield) (fst (run_relaxed evs c))) \<le> (if point c = InBody then 1 else 0)"
proof (induction evs arbitrary: c)
  case Nil
  show ?case by simp
next
  case (Cons ev evs)
  let ?c = "snd (step_relaxed ev c)"
  have stopped: "\<not> running (engine ?c)"
    using Cons.prems(1) by (rule step_relaxed_stays_stopped)
  have unseen: "\<not> seen ?c"
    using Cons.prems by (rule step_relaxed_stays_unseen)
  note IH = Cons.IH [OF stopped unseen]
  show ?case
  proof (cases ev)
    case TakeStep
    with IH Cons.prems show ?thesis
      by (cases "point c")
        (simp_all add: run_relaxed_Cons_fst step_relaxed_TakeStep_unseen
          del: run_relaxed.simps(2) step_relaxed.simps(1))
  next
    case CallStop
    with IH show ?thesis
      by (simp add: run_relaxed_Cons_fst step_relaxed_CallStop
          del: run_relaxed.simps(2) step_relaxed.simps(2))
  next
    case BecomeVisible
    with IH show ?thesis
      by (simp add: run_relaxed_Cons_fst del: run_relaxed.simps(2))
  qed
qed

lemma run_relaxed_unseen_returns:
  "\<not> running (engine c) \<Longrightarrow> \<not> seen c \<Longrightarrow>
   (case point c of AtTest \<Rightarrow> 1 | InBody \<Rightarrow> 2 | Returned \<Rightarrow> 0)
     \<le> length (filter (\<lambda>ev. ev = TakeStep) evs) \<Longrightarrow>
   point (snd (run_relaxed evs c)) = Returned"
proof (induction evs arbitrary: c)
  case Nil
  then show ?case by (cases "point c") simp_all
next
  case (Cons ev evs)
  let ?c = "snd (step_relaxed ev c)"
  have stopped: "\<not> running (engine ?c)"
    using Cons.prems(1) by (rule step_relaxed_stays_stopped)
  have unseen: "\<not> seen ?c"
    using Cons.prems(1,2) by (rule step_relaxed_stays_unseen)
  note IH = Cons.IH [OF stopped unseen]
  show ?case
  proof (cases ev)
    case TakeStep
    with IH Cons.prems show ?thesis
      by (cases "point c")
        (simp_all add: run_relaxed_Cons_snd step_relaxed_TakeStep_unseen
          del: run_relaxed.simps(2) step_relaxed.simps(1))
  next
    case CallStop
    with IH Cons.prems(3) show ?thesis
      by (simp add: run_relaxed_Cons_snd step_relaxed_CallStop
          del: run_relaxed.simps(2) step_relaxed.simps(2))
  next
    case BecomeVisible
    with IH Cons.prems(3) show ?thesis
      by (simp add: run_relaxed_Cons_snd del: run_relaxed.simps(2))
  qed
qed

text \<open>
  Until the store is visible to it, the loop thread goes on: as long as it reads true, it
  makes as many iterations as it is given steps for, whatever the flag of the engine is.
\<close>

lemma run_relaxed_seen_iterates:
  "seen c \<Longrightarrow> point c = AtTest \<Longrightarrow>
   run_relaxed (replicate (2 * n) TakeStep) c
     = (concat (replicate n [LoadRunning True, Yield]), c)"
proof (induction n)
  case 0
  show ?case by simp
next
  case (Suc n)
  have one: "run_relaxed [TakeStep, TakeStep] c = ([LoadRunning True, Yield], c)"
    using Suc.prems by (simp add: runLoop_step_relaxed_def)
  have "replicate (2 * Suc n) TakeStep = [TakeStep, TakeStep] @ replicate (2 * n) TakeStep"
    by simp
  then have "run_relaxed (replicate (2 * Suc n) TakeStep) c
      = run_relaxed ([TakeStep, TakeStep] @ replicate (2 * n) TakeStep) c"
    by (rule arg_cong)
  also have "\<dots> = ([LoadRunning True, Yield] @ concat (replicate n [LoadRunning True, Yield]), c)"
    unfolding run_relaxed_append one using Suc.IH [OF Suc.prems] by simp
  finally show ?case by simp
qed

text \<open>
  With every store visible at once, the steps under the relaxed load are the steps of
  the first model.
\<close>

lemma run_relaxed_visible_at_once:
  "run_relaxed (concat (map visible_at_once evs)) (with_view c)
     = (fst (run evs c), with_view (snd (run evs c)))"
proof (induction evs arbitrary: c)
  case Nil
  show ?case by simp
next
  case (Cons ev evs)
  have first: "run_relaxed (visible_at_once ev) (with_view c)
      = (fst (step ev c), with_view (snd (step ev c)))"
    by (cases ev)
      (simp_all add: with_view_def runLoop_step_def runLoop_step_relaxed_def stop_def Let_def
        split: loop_point.splits)
  show ?case
    using Cons.IH [of "snd (step ev c)"]
    by (simp add: run_relaxed_append first run_Cons_fst run_Cons_snd del: run.simps(2))
qed

text \<open>
  C4, as the code has it. From the call of \<^verbatim>\<open>stop\<close> on, the flag is false in every
  continuation, and no order is polled. From the moment the store of \<^verbatim>\<open>stop\<close> is
  visible to the loop thread, whatever happened between the call and that moment: no test
  of the loop finds the flag true, so no iteration begins; at most one yield happens, that
  of the body in progress; and the thread has returned from \<^verbatim>\<open>runLoop\<close> once it
  has made two steps.
\<close>

theorem stop_ends_runLoop_once_visible:
  "running (engine (snd (run_relaxed evs (snd (step_relaxed CallStop c))))) = False
   \<and> PollOrder \<notin> set (fst (run_relaxed evs (snd (step_relaxed CallStop c))))
   \<and> LoadRunning True \<notin> set (fst (run_relaxed evs
        (snd (run_relaxed (mid @ [BecomeVisible]) (snd (step_relaxed CallStop c))))))
   \<and> length (filter (\<lambda>a. a = Yield) (fst (run_relaxed evs
        (snd (run_relaxed (mid @ [BecomeVisible]) (snd (step_relaxed CallStop c))))))) \<le> 1
   \<and> (2 \<le> length (filter (\<lambda>ev. ev = TakeStep) evs) \<longrightarrow>
        point (snd (run_relaxed evs
          (snd (run_relaxed (mid @ [BecomeVisible]) (snd (step_relaxed CallStop c)))))) = Returned)"
proof -
  let ?called = "snd (step_relaxed CallStop c)"
  let ?between = "snd (run_relaxed mid ?called)"
  let ?visible = "snd (run_relaxed (mid @ [BecomeVisible]) ?called)"
  have called: "\<not> running (engine ?called)"
    by (simp add: step_relaxed_CallStop del: step_relaxed.simps(2))
  have flag: "running (engine (snd (run_relaxed evs ?called))) = False"
    using run_relaxed_stays_stopped [OF called] by simp
  have no_poll: "PollOrder \<notin> set (fst (run_relaxed evs ?called))"
    using run_relaxed_effects [of evs ?called] by auto
  have between: "\<not> running (engine ?between)"
    using called by (rule run_relaxed_stays_stopped)
  have visible: "?visible = ?between\<lparr>seen := running (engine ?between)\<rparr>"
    by (simp add: run_relaxed_append)
  have stopped: "\<not> running (engine ?visible)"
    unfolding visible using between by simp
  have unseen: "\<not> seen ?visible"
    unfolding visible using between by simp
  have no_iteration: "LoadRunning True \<notin> set (fst (run_relaxed evs ?visible))"
    using stopped unseen by (rule run_relaxed_unseen_no_iteration)
  have one_yield: "length (filter (\<lambda>a. a = Yield) (fst (run_relaxed evs ?visible))) \<le> 1"
    using run_relaxed_unseen_yields [OF stopped unseen, of evs] by (simp split: if_splits)
  have returns: "point (snd (run_relaxed evs ?visible)) = Returned"
    if "2 \<le> length (filter (\<lambda>ev. ev = TakeStep) evs)"
  proof (rule run_relaxed_unseen_returns [OF stopped unseen])
    show "(case point ?visible of AtTest \<Rightarrow> 1 | InBody \<Rightarrow> 2 | Returned \<Rightarrow> 0)
            \<le> length (filter (\<lambda>ev. ev = TakeStep) evs)"
      using that by (cases "point ?visible") simp_all
  qed
  from flag no_poll no_iteration one_yield returns show ?thesis
    by blast
qed

theorem stop_ends_runLoop_once_visible_witness:
  "run_relaxed [TakeStep, TakeStep, TakeStep]
      (snd (run_relaxed ([TakeStep, TakeStep, TakeStep] @ [BecomeVisible])
        (snd (step_relaxed CallStop (runLoop_call_relaxed NanoExecutionEngine_ctor)))))
     = ([Yield, LoadRunning False],
        \<lparr>point = Returned, engine = \<lparr>running = False, riskGate = PreTradeRiskGate\<rparr>,
           seen = False\<rparr>)
   \<and> fst (run_relaxed ([TakeStep, TakeStep, TakeStep] @ [BecomeVisible])
        (snd (step_relaxed CallStop (runLoop_call_relaxed NanoExecutionEngine_ctor))))
     = [LoadRunning True, Yield, LoadRunning True]
   \<and> (2::nat) \<le> length (filter (\<lambda>ev. ev = TakeStep) [TakeStep, TakeStep, TakeStep])"
  using stop_ends_runLoop_once_visible
    [where c = "runLoop_call_relaxed NanoExecutionEngine_ctor"
       and mid = "[TakeStep, TakeStep, TakeStep]"
       and evs = "[TakeStep, TakeStep, TakeStep]"]
  by (simp add: runLoop_call_relaxed_def NanoExecutionEngine_ctor_def runLoop_step_relaxed_def
      stop_def)

text \<open>
  C4 as stated fails. \<^verbatim>\<open>stop\<close> is called on a running engine whose loop is at its
  test, and the store is not yet visible to the loop thread: in its next four steps the
  thread finds the flag true twice and completes two iterations, and it has not left the
  loop.
\<close>

theorem runLoop_iterates_after_stop_call:
  "run_relaxed [CallStop, TakeStep, TakeStep, TakeStep, TakeStep]
      (runLoop_call_relaxed NanoExecutionEngine_ctor)
     = ([StoreRunning False, LoadRunning True, Yield, LoadRunning True, Yield],
        \<lparr>point = AtTest, engine = \<lparr>running = False, riskGate = PreTradeRiskGate\<rparr>,
           seen = True\<rparr>)"
  by (simp add: runLoop_call_relaxed_def NanoExecutionEngine_ctor_def runLoop_step_relaxed_def
      stop_def)

text \<open>
  C9. One iteration of the loop is the load of \<^verbatim>\<open>_running\<close> and the yield, and it
  leaves the engine as it was; no step of \<^verbatim>\<open>runLoop\<close> does anything but one of
  these two; in no interleaving is an order polled, passed to \<^verbatim>\<open>isSafe\<close> or sent
  to the wire, and the gate of the engine is never touched. \<^verbatim>\<open>main\<close> prints the
  startup line, constructs the engine and returns 0: it has no step of \<^verbatim>\<open>runLoop\<close>.
\<close>

theorem runLoop_iteration_and_main:
  "(running (engine c) \<longrightarrow>
      run [LoopStep, LoopStep] (c\<lparr>point := AtTest\<rparr>)
        = ([LoadRunning True, Yield], c\<lparr>point := AtTest\<rparr>))
   \<and> (\<forall>a \<in> set (fst (runLoop_step c)). a = LoadRunning (running (engine c)) \<or> a = Yield)
   \<and> engine (snd (runLoop_step c)) = engine c
   \<and> (\<forall>a \<in> set (fst (run evs c)).
        a \<noteq> PollOrder \<and> (\<forall>order m. a \<noteq> IsSafeCall order m) \<and> (\<forall>order. a \<noteq> SendToWire order))
   \<and> riskGate (engine (snd (run evs c))) = riskGate (engine c)
   \<and> main = ([Print (''[METAL] Starting NanoExecutionEngine...'' @ [CHR 0x0A])],
             NanoExecutionEngine_ctor, 0)"
proof -
  have iteration: "run [LoopStep, LoopStep] (c\<lparr>point := AtTest\<rparr>)
      = ([LoadRunning True, Yield], c\<lparr>point := AtTest\<rparr>)" if "running (engine c)"
    using that by (simp add: runLoop_step_def)
  have one_step: "\<forall>a \<in> set (fst (runLoop_step c)). a = LoadRunning (running (engine c)) \<or> a = Yield"
    by (cases "point c") (simp_all add: runLoop_step_def Let_def)
  have same_engine: "engine (snd (runLoop_step c)) = engine c"
    using step_LoopStep_engine [of c] by simp
  have no_orders: "\<forall>a \<in> set (fst (run evs c)).
      a \<noteq> PollOrder \<and> (\<forall>order m. a \<noteq> IsSafeCall order m) \<and> (\<forall>order. a \<noteq> SendToWire order)"
    using run_no_order_effects [of _ evs c] by blast
  have prog: "main = ([Print (''[METAL] Starting NanoExecutionEngine...'' @ [CHR 0x0A])],
      NanoExecutionEngine_ctor, 0)"
    by (simp add: main_def)
  from iteration one_step same_engine no_orders run_riskGate [of evs c] prog show ?thesis
    by blast
qed

theorem runLoop_iteration_and_main_witness:
  "running (engine (runLoop_call NanoExecutionEngine_ctor))
   \<and> run [LoopStep, LoopStep] (runLoop_call NanoExecutionEngine_ctor)
       = ([LoadRunning True, Yield], runLoop_call NanoExecutionEngine_ctor)
   \<and> fst (run [LoopStep, LoopStep, StopCall, LoopStep] (runLoop_call NanoExecutionEngine_ctor))
       = [LoadRunning True, Yield, StoreRunning False, LoadRunning False]
   \<and> fst main = [Print (''[METAL] Starting NanoExecutionEngine...'' @ [CHR 0x0A])]
   \<and> snd (snd main) = 0"
  using runLoop_iteration_and_main
    [where c = "runLoop_call NanoExecutionEngine_ctor"
       and evs = "[LoopStep, LoopStep, StopCall, LoopStep]"]
  by (simp add: runLoop_call_def NanoExecutionEngine_ctor_def runLoop_step_def stop_def main_def)

text \<open>
  C10. The constructor sets \<^verbatim>\<open>_running\<close> to true. \<^verbatim>\<open>stop\<close> stores false
  into it, and a step of \<^verbatim>\<open>runLoop\<close> leaves the engine as it is, so in no
  interleaving is true stored; once the flag is false it is false ever after.
\<close>

theorem running_is_only_cleared:
  "running NanoExecutionEngine_ctor = True
   \<and> stop e = ([StoreRunning False], e\<lparr>running := False\<rparr>)
   \<and> engine (snd (runLoop_step c)) = engine c
   \<and> StoreRunning True \<notin> set (fst (run evs c))
   \<and> (running (engine c) = False \<longrightarrow> running (engine (snd (run evs c))) = False)"
proof -
  have "running NanoExecutionEngine_ctor = True"
    by (simp add: NanoExecutionEngine_ctor_def)
  moreover have "stop e = ([StoreRunning False], e\<lparr>running := False\<rparr>)"
    by (simp add: stop_def)
  moreover have "engine (snd (runLoop_step c)) = engine c"
    using step_LoopStep_engine [of c] by simp
  moreover note run_no_store_true [of evs c]
  moreover have "running (engine c) = False \<longrightarrow> running (engine (snd (run evs c))) = False"
    using run_stays_stopped [of c evs] by simp
  ultimately show ?thesis by blast
qed

theorem running_is_only_cleared_witness:
  "running NanoExecutionEngine_ctor = True
   \<and> running (engine (snd (run [StopCall] (runLoop_call NanoExecutionEngine_ctor)))) = False
   \<and> running (engine (snd (run [LoopStep, StopCall, LoopStep, LoopStep]
        (snd (run [StopCall] (runLoop_call NanoExecutionEngine_ctor)))))) = False
   \<and> fst (run [LoopStep, StopCall, LoopStep, LoopStep]
        (snd (run [StopCall] (runLoop_call NanoExecutionEngine_ctor))))
       = [LoadRunning False, StoreRunning False]"
  using running_is_only_cleared
    [where e = NanoExecutionEngine_ctor
       and c = "snd (run [StopCall] (runLoop_call NanoExecutionEngine_ctor))"
       and evs = "[LoopStep, StopCall, LoopStep, LoopStep]"]
  by (simp add: runLoop_call_def NanoExecutionEngine_ctor_def runLoop_step_def stop_def)

end
